theory Spec2Isabelle
  imports Main "HOL-Library.Sublist" "HOL-Library.Word"
begin

section \<open>Python strings, integers and bytes\<close>

text \<open>
  A Python \<open>str\<close> is modelled as a \<^typ>\<open>string\<close>, each \<^typ>\<open>char\<close> standing for the code
  point of the same number (0 to 255).  The functions below follow CPython on that range.
  \<open>str.upper\<close> is modelled on the ASCII letters only: on the other code points below 256
  it yields no ASCII character except for U+00DF, which becomes \<open>SS\<close>; none of these is a
  hexadecimal digit, a colon or a dash, so the checks of this program that follow
  \<open>upper\<close> decide the same way.  A byte is an 8-bit word.
\<close>

type_synonym byte = "8 word"

definition whitespace :: string where
  "whitespace = [CHR 0x09, CHR 0x0A, CHR 0x0B, CHR 0x0C, CHR 0x0D, CHR 0x1C, CHR 0x1D,
     CHR 0x1E, CHR 0x1F, CHR 0x20, CHR 0x85, CHR 0xA0]"

definition ascii_whitespace :: string where
  "ascii_whitespace = [CHR 0x09, CHR 0x0A, CHR 0x0B, CHR 0x0C, CHR 0x0D, CHR 0x20]"

definition strip_chars :: "string \<Rightarrow> string \<Rightarrow> string" where
  \<comment> \<open>\<open>s.strip(chars)\<close>: drop the characters of \<open>chars\<close> at both ends.\<close>
  "strip_chars chars s =
     rev (dropWhile (\<lambda>c. c \<in> set chars) (rev (dropWhile (\<lambda>c. c \<in> set chars) s)))"

definition str_strip :: "string \<Rightarrow> string" where
  \<comment> \<open>\<open>s.strip()\<close>\<close>
  "str_strip s = strip_chars whitespace s"

definition upper_char :: "char \<Rightarrow> char" where
  "upper_char c =
     (case map_of (zip ''abcdefghijklmnopqrstuvwxyz'' ''ABCDEFGHIJKLMNOPQRSTUVWXYZ'') c of
        Some u \<Rightarrow> u
      | None \<Rightarrow> c)"

definition str_upper :: "string \<Rightarrow> string" where
  \<comment> \<open>\<open>s.upper()\<close>\<close>
  "str_upper s = map upper_char s"

fun replace_from :: "string \<Rightarrow> string \<Rightarrow> nat \<Rightarrow> string \<Rightarrow> string" where
  \<comment> \<open>the left-to-right scan of \<open>str.replace\<close>; \<open>k\<close> characters of the occurrence just
      replaced are still to be skipped\<close>
  "replace_from old new k [] = []"
| "replace_from old new k (c # cs) =
     (if 0 < k then replace_from old new (k - 1) cs
      else if prefix old (c # cs) then new @ replace_from old new (length old - 1) cs
      else c # replace_from old new 0 cs)"

definition str_replace :: "string \<Rightarrow> string \<Rightarrow> string \<Rightarrow> string" where
  \<comment> \<open>\<open>s.replace(old, new)\<close>: every occurrence, left to right, without overlap\<close>
  "str_replace old new s =
     (if old = [] then new @ concat (map (\<lambda>c. c # new) s) else replace_from old new 0 s)"

definition digit_char :: "nat \<Rightarrow> char" where
  "digit_char d = ''0123456789'' ! d"

fun str_nat :: "nat \<Rightarrow> string" where
  "str_nat n = (if n < 10 then [digit_char n] else str_nat (n div 10) @ [digit_char (n mod 10)])"

declare str_nat.simps [simp del]

definition str_int :: "int \<Rightarrow> string" where
  \<comment> \<open>\<open>str(i)\<close>, the text an f-string puts for an integer\<close>
  "str_int i = (if i < 0 then CHR ''-'' # str_nat (nat (- i)) else str_nat (nat i))"

definition is_digit :: "char \<Rightarrow> bool" where
  "is_digit c = (c \<in> set ''0123456789'')"

definition digit_val :: "char \<Rightarrow> int" where
  "digit_val c = int (of_char c) - 48"

fun int_digits :: "int \<Rightarrow> string \<Rightarrow> int option" where
  \<comment> \<open>the digits after the first one; a single underscore may stand between two digits\<close>
  "int_digits acc [] = Some acc"
| "int_digits acc (c # cs) =
     (if is_digit c then int_digits (10 * acc + digit_val c) cs
      else if c = CHR ''_'' then
        (case cs of
           [] \<Rightarrow> None
         | d # ds \<Rightarrow> if is_digit d then int_digits (10 * acc + digit_val d) ds else None)
      else None)"

definition int_unsigned :: "string \<Rightarrow> int option" where
  "int_unsigned s =
     (case s of
        [] \<Rightarrow> None
      | d # ds \<Rightarrow> if is_digit d then int_digits (digit_val d) ds else None)"

definition py_int :: "string \<Rightarrow> int option" where
  \<comment> \<open>\<open>int(s)\<close> in base 10; \<open>None\<close> is \<open>ValueError\<close>.  The interpreter's limit on the
      number of digits (4300 by default, in the versions that have one) is not modelled.\<close>
  "py_int s =
     (case strip_chars ascii_whitespace s of
        [] \<Rightarrow> None
      | c # cs \<Rightarrow>
          if c = CHR ''-'' then map_option uminus (int_unsigned cs)
          else if c = CHR ''+'' then int_unsigned cs
          else int_unsigned (c # cs))"

definition hex_val :: "char \<Rightarrow> nat option" where
  "hex_val c =
     map_of (zip ''0123456789abcdefABCDEF''
       [0, 1, 2, 3, 4, 5, 6, 7, 8, 9, 10, 11, 12, 13, 14, 15, 10, 11, 12, 13, 14, 15]) c"

fun bytes_fromhex :: "string \<Rightarrow> byte list option" where
  \<comment> \<open>\<open>bytes.fromhex(s)\<close>: pairs of hexadecimal digits, ASCII whitespace allowed between
      pairs; \<open>None\<close> is \<open>ValueError\<close>\<close>
  "bytes_fromhex [] = Some []"
| "bytes_fromhex [a] = (if a \<in> set ascii_whitespace then Some [] else None)"
| "bytes_fromhex (a # b # s) =
     (if a \<in> set ascii_whitespace then bytes_fromhex (b # s)
      else
        (case (hex_val a, hex_val b) of
           (Some h, Some l) \<Rightarrow> map_option ((#) (word_of_nat (16 * h + l))) (bytes_fromhex s)
         | _ \<Rightarrow> None))"

datatype py_error = ValueError string

section \<open>MAC address normalization (\<open>normalize_mac\<close>)\<close>

definition is_hex_upper :: "char \<Rightarrow> bool" where
  \<comment> \<open>the character class \<open>[0-9A-F]\<close>\<close>
  "is_hex_upper c = (c \<in> set ''0123456789ABCDEF'')"




section \<open>The packet sender (\<open>send_magic_packet_advanced\<close>)\<close>

definition DEFAULT_PORTS :: "int list" where
  "DEFAULT_PORTS = [7, 9]"

definition parse_ports :: "string \<Rightarrow> py_error + int list" where
  \<comment> \<open>the port list the sender works on, or the error it raises\<close>
  "parse_ports port_input =
     (if str_strip port_input = [] then Inr DEFAULT_PORTS
      else
        (case py_int (str_strip port_input) of
           Some port \<Rightarrow> Inr [port]
         | None \<Rightarrow> Inl (ValueError (''Invalid port number: '' @ port_input))))"

definition clean_mac :: "string \<Rightarrow> py_error + string" where
  \<comment> \<open>the sender's own check of the address: \<open>mac_clean\<close>, or the error it raises\<close>
  "clean_mac mac =
     (let mac_clean = str_upper (str_replace ''-'' [] (str_replace '':'' [] mac))
      in if length mac_clean \<noteq> 12 \<or> \<not> list_all (\<lambda>c. c \<in> set ''0123456789ABCDEF'') mac_clean
         then Inl (ValueError (''Invalid MAC address format: '' @ mac))
         else Inr mac_clean)"

definition magic_packet :: "string \<Rightarrow> py_error + byte list" where
  \<comment> \<open>the packet the sender builds from its \<open>mac\<close> argument\<close>
  "magic_packet mac =
     (case clean_mac mac of
        Inl e \<Rightarrow> Inl e
      | Inr mac_clean \<Rightarrow>
          (case bytes_fromhex mac_clean of
             None \<Rightarrow> Inl (ValueError ''non-hexadecimal number found in fromhex() arg'')
           | Some mac_bytes \<Rightarrow> Inr (replicate 6 0xFF @ concat (replicate 16 mac_bytes))))"

text \<open>
  The network is an oracle.  For the \<open>k\<close>-th port of the list it says whether the socket
  can be set up (\<open>socket.socket\<close>, then \<open>settimeout\<close> and \<open>setsockopt\<close>) and, for the
  \<open>i\<close>-th \<open>sendto\<close> on that socket, what the call does.  Closing a socket is taken not to
  raise.  What the program does to the outside is recorded as a list of events.
\<close>

datatype setup_outcome = Ready | Socket_raises string | Option_raises string

datatype send_outcome = Sent nat | Send_raises

record network =
  socket_setup :: "nat \<Rightarrow> setup_outcome"
  sendto :: "nat \<Rightarrow> nat \<Rightarrow> send_outcome"

datatype event =
    Socket_open
  | Socket_close
  | Sendto_call string int "byte list"
  | Sleep_ms nat
  | Log_line string
  | Set_progress int
  | Ping_call string nat
  | Show_info string string
  | Show_warning string string

definition sock_sendto :: "network \<Rightarrow> nat \<Rightarrow> nat \<Rightarrow> int \<Rightarrow> send_outcome" where
  \<comment> \<open>\<open>sock.sendto(magic_packet, (host, port))\<close>: a port outside 0..65535 makes the call
      raise \<open>OverflowError\<close> before anything is sent\<close>
  "sock_sendto net k i port = (if port < 0 \<or> 65535 < port then Send_raises else sendto net k i)"

fun send_attempts ::
  "network \<Rightarrow> string \<Rightarrow> byte list \<Rightarrow> nat \<Rightarrow> int \<Rightarrow> nat list \<Rightarrow> nat \<times> event list \<Rightarrow> nat \<times> event list"
where
  "send_attempts net host pkt k port [] st = st"
| "send_attempts net host pkt k port (i # is) (sent_count, tr) =
     send_attempts net host pkt k port is
       ((case sock_sendto net k i port of
           Sent bytes_sent \<Rightarrow> if bytes_sent = length pkt then sent_count + 1 else sent_count
         | Send_raises \<Rightarrow> sent_count),
        tr @ [Sendto_call host port pkt, Sleep_ms 100])"

record sender_state =
  success_count :: nat
  results :: "string list"
  trace :: "event list"

definition send_port ::
  "network \<Rightarrow> string \<Rightarrow> byte list \<Rightarrow> nat \<Rightarrow> int \<Rightarrow> sender_state \<Rightarrow> sender_state"
where
  \<comment> \<open>one round of the loop over the ports\<close>
  "send_port net host pkt k port st =
     (let st' =
        (case socket_setup net k of
           Socket_raises e \<Rightarrow>
             st\<lparr>results := results st @ [''Port '' @ str_int port @ '': Error - '' @ e]\<rparr>
         | Option_raises e \<Rightarrow>
             st\<lparr>results := results st @ [''Port '' @ str_int port @ '': Error - '' @ e],
                trace := trace st @ [Socket_open, Socket_close]\<rparr>
         | Ready \<Rightarrow>
             (case send_attempts net host pkt k port [0..<3] (0, trace st @ [Socket_open]) of
                (sent_count, tr) \<Rightarrow>
                  if 0 < sent_count then
                    st\<lparr>success_count := success_count st + 1,
                       results := results st @
                         [''Port '' @ str_int port @ '': '' @ str_int (int sent_count) @
                          ''/3 transmission success''],
                       trace := tr @ [Socket_close]\<rparr>
                  else
                    st\<lparr>results := results st @
                         [''Port '' @ str_int port @ '': transmission failed''],
                       trace := tr @ [Socket_close]\<rparr>))
      in st'\<lparr>trace := trace st' @ [Sleep_ms 300]\<rparr>)"

fun send_ports ::
  "network \<Rightarrow> string \<Rightarrow> byte list \<Rightarrow> nat \<Rightarrow> int list \<Rightarrow> sender_state \<Rightarrow> sender_state"
where
  "send_ports net host pkt k [] st = st"
| "send_ports net host pkt k (port # ports) st =
     send_ports net host pkt (Suc k) ports (send_port net host pkt k port st)"

definition send_magic_packet_advanced ::
  "network \<Rightarrow> string \<Rightarrow> string \<Rightarrow> string \<Rightarrow> (py_error + bool \<times> string list) \<times> event list"
where
  \<comment> \<open>the value returned or the error raised, and the events up to that point\<close>
  "send_magic_packet_advanced net mac host port_input =
     (case parse_ports port_input of
        Inl e \<Rightarrow> (Inl e, [])
      | Inr ports \<Rightarrow>
          (case magic_packet mac of
             Inl e \<Rightarrow> (Inl e, [])
           | Inr pkt \<Rightarrow>
               (let st = send_ports net host pkt 0 ports
                           \<lparr>success_count = 0, results = [], trace = []\<rparr>
                in (Inr (0 < success_count st, results st), trace st))))"

section \<open>Host normalization in \<open>_run_task\<close>\<close>

definition clean_host :: "string \<Rightarrow> string" where
  "clean_host router_ip =
     strip_chars ''/'' (str_replace ''https://'' [] (str_replace ''http://'' [] router_ip))"

definition run_task_host :: "string \<Rightarrow> string" where
  \<comment> \<open>from the text of the router field to the host handed to the sender\<close>
  "run_task_host var_router_ip = clean_host (str_strip var_router_ip)"

section \<open>The reachability poll (\<open>_do_ping\<close>)\<close>

text \<open>
  \<open>ping_once\<close> runs the system's \<open>ping\<close> and returns a boolean, also when the call fails.
  It is an oracle: \<open>probe n\<close> is what the invocation after \<open>n\<close> earlier ones returns.
\<close>

definition check_mark :: string where
  \<comment> \<open>U+2713, in UTF-8\<close>
  "check_mark = [CHR 0xE2, CHR 0x9C, CHR 0x93]"

definition ballot_x :: string where
  \<comment> \<open>U+2717, in UTF-8\<close>
  "ballot_x = [CHR 0xE2, CHR 0x9C, CHR 0x97]"

fun ping_attempts ::
  "(nat \<Rightarrow> bool) \<Rightarrow> string \<Rightarrow> nat list \<Rightarrow> nat \<times> event list \<Rightarrow> bool \<times> nat \<times> event list"
where
  "ping_attempts probe host [] (n, tr) = (False, n, tr)"
| "ping_attempts probe host (i # is) (n, tr) =
     (let tr1 = tr @ [Log_line (''Ping attempt '' @ str_int (int i + 1) @ ''/10 ...''),
                      Set_progress (10 + int i * 8), Ping_call host 1000]
      in if probe n then (True, Suc n, tr1)
         else ping_attempts probe host is (Suc n, tr1 @ [Sleep_ms 1000]))"

definition do_ping :: "(nat \<Rightarrow> bool) \<Rightarrow> string \<Rightarrow> bool \<times> nat \<times> event list" where
  \<comment> \<open>whether the host answered, how often \<open>ping_once\<close> was invoked, and the events\<close>
  "do_ping probe host =
     (case ping_attempts probe host [0..<10]
             (0, [Log_line (''Ping check started: '' @ host), Set_progress 10]) of
        (ok, n, tr) \<Rightarrow>
          if ok then
            (ok, n, tr @ [Log_line (check_mark @ '' PC is responding (wake-up confirmed).''),
                          Show_info ''Wake Confirmed'' ''Success: PC is responding.'',
                          Set_progress 100])
          else
            (ok, n, tr @ [Log_line (ballot_x @ '' No response yet. Please try again later.''),
                          Show_warning ''Check Failed''
                            ''No response yet. Please wait a bit longer and try again.'',
                          Set_progress 0]))"

section \<open>Hardware addresses as text\<close>

definition hex_pair :: "byte \<Rightarrow> string" where
  \<comment> \<open>an octet as two uppercase hexadecimal digits\<close>
  "hex_pair b = [''0123456789ABCDEF'' ! (unat b div 16), ''0123456789ABCDEF'' ! (unat b mod 16)]"

fun join :: "string \<Rightarrow> string list \<Rightarrow> string" where
  "join sep [] = []"
| "join sep [p] = p"
| "join sep (p # q # ps) = p @ sep @ join sep (q # ps)"

definition mac_text :: "string \<Rightarrow> byte list \<Rightarrow> string" where
  \<comment> \<open>the octets in uppercase hexadecimal with \<open>sep\<close> between them\<close>
  "mac_text sep octets = join sep (map hex_pair octets)"

section \<open>What a run is measured against\<close>

definition ping_calls :: "event list \<Rightarrow> nat" where
  \<comment> \<open>how many times \<open>ping_once\<close> was invoked\<close>
  "ping_calls tr = length (filter (\<lambda>e. case e of Ping_call h t \<Rightarrow> True | _ \<Rightarrow> False) tr)"

definition sent_ok :: "network \<Rightarrow> byte list \<Rightarrow> nat \<Rightarrow> int \<Rightarrow> nat" where
  \<comment> \<open>how many of the three sends on the \<open>k\<close>-th port report the whole packet written\<close>
  "sent_ok net pkt k port =
     length (filter (\<lambda>i. sock_sendto net k i port = Sent (length pkt)) [0..<3])"

definition port_result :: "network \<Rightarrow> byte list \<Rightarrow> nat \<times> int \<Rightarrow> string" where
  \<comment> \<open>the diagnostic line of the \<open>k\<close>-th port\<close>
  "port_result net pkt kp =
     (case kp of
        (k, port) \<Rightarrow>
          ''Port '' @ str_int port @ '': '' @
          (case socket_setup net k of
             Socket_raises e \<Rightarrow> ''Error - '' @ e
           | Option_raises e \<Rightarrow> ''Error - '' @ e
           | Ready \<Rightarrow>
               if 0 < sent_ok net pkt k port
               then str_int (int (sent_ok net pkt k port)) @ ''/3 transmission success''
               else ''transmission failed''))"

definition port_events :: "network \<Rightarrow> string \<Rightarrow> byte list \<Rightarrow> nat \<times> int \<Rightarrow> event list" where
  \<comment> \<open>the events of the \<open>k\<close>-th port: they depend on the socket's setup only\<close>
  "port_events net host pkt kp =
     (case kp of
        (k, port) \<Rightarrow>
          (case socket_setup net k of
             Socket_raises e \<Rightarrow> []
           | Option_raises e \<Rightarrow> [Socket_open, Socket_close]
           | Ready \<Rightarrow>
               [Socket_open,
                Sendto_call host port pkt, Sleep_ms 100,
                Sendto_call host port pkt, Sleep_ms 100,
                Sendto_call host port pkt, Sleep_ms 100,
                Socket_close]) @
          [Sleep_ms 300])"

definition port_succeeded :: "network \<Rightarrow> byte list \<Rightarrow> nat \<times> int \<Rightarrow> bool" where
  \<comment> \<open>the \<open>k\<close>-th port recorded at least one successful send\<close>
  "port_succeeded net pkt kp =
     (case kp of (k, port) \<Rightarrow> socket_setup net k = Ready \<and> 0 < sent_ok net pkt k port)"


section \<open>Example networks\<close>

definition net0 :: network where
  "net0 = \<lparr>socket_setup = (\<lambda>k. if k = 0 then Socket_raises ''boom'' else Ready),
           sendto = (\<lambda>k i. if i = 1 then Send_raises else Sent 102)\<rparr>"

definition net1 :: network where
  "net1 = \<lparr>socket_setup = (\<lambda>k. Ready),
           sendto = (\<lambda>k i. if k = 0 \<or> i = 0 then Send_raises else Sent 102)\<rparr>"

section \<open>The reachability poll stops at the first answer\<close>

lemma ping_attempts_all_fail:
  "(\<And>j. j < length is \<Longrightarrow> \<not> probe (n + j)) \<Longrightarrow>
   \<exists>tr'. ping_attempts probe host is (n, tr) = (False, n + length is, tr') \<and>
         ping_calls tr' = ping_calls tr + length is"
proof (induction "is" arbitrary: n tr)
  case Nil
  then show ?case by simp
next
  case (Cons i "is")
  let ?tr1 = "tr @ [Log_line (''Ping attempt '' @ str_int (int i + 1) @ ''/10 ...''),
                    Set_progress (10 + int i * 8), Ping_call host 1000]"
  have no: "\<not> probe n" using Cons.prems [of 0] by simp
  have rest: "\<And>j. j < length is \<Longrightarrow> \<not> probe (Suc n + j)"
    using Cons.prems [of "Suc j" for j] by simp
  obtain tr' where
    run: "ping_attempts probe host is (Suc n, ?tr1 @ [Sleep_ms 1000]) = (False, Suc n + length is, tr')"
    and cnt: "ping_calls tr' = ping_calls (?tr1 @ [Sleep_ms 1000]) + length is"
    using Cons.IH [OF rest] by blast
  have "ping_attempts probe host (i # is) (n, tr) = (False, n + length (i # is), tr')"
    using no run by (simp add: Let_def)
  moreover have "ping_calls tr' = ping_calls tr + length (i # is)"
    using cnt by (simp add: ping_calls_def)
  ultimately show ?case by blast
qed

lemma ping_attempts_first_success:
  "m < length is \<Longrightarrow> probe (n + m) \<Longrightarrow> (\<And>j. j < m \<Longrightarrow> \<not> probe (n + j)) \<Longrightarrow>
   \<exists>tr'. ping_attempts probe host is (n, tr) = (True, Suc (n + m), tr') \<and>
         ping_calls tr' = Suc (ping_calls tr + m)"
proof (induction "is" arbitrary: n m tr)
  case Nil
  then show ?case by simp
next
  case (Cons i "is")
  let ?tr1 = "tr @ [Log_line (''Ping attempt '' @ str_int (int i + 1) @ ''/10 ...''),
                    Set_progress (10 + int i * 8), Ping_call host 1000]"
  show ?case
  proof (cases m)
    case 0
    then have "probe n" using Cons.prems(2) by simp
    then have "ping_attempts probe host (i # is) (n, tr) = (True, Suc (n + m), ?tr1)"
      using 0 by (simp add: Let_def)
    moreover have "ping_calls ?tr1 = Suc (ping_calls tr + m)"
      using 0 by (simp add: ping_calls_def)
    ultimately show ?thesis by blast
  next
    case (Suc m')
    have no: "\<not> probe n" using Cons.prems(3) [of 0] Suc by simp
    have len: "m' < length is" using Cons.prems(1) Suc by simp
    have hit: "probe (Suc n + m')" using Cons.prems(2) Suc by simp
    have rest: "\<And>j. j < m' \<Longrightarrow> \<not> probe (Suc n + j)"
      using Cons.prems(3) [of "Suc j" for j] Suc by simp
    obtain tr' where
      run: "ping_attempts probe host is (Suc n, ?tr1 @ [Sleep_ms 1000]) = (True, Suc (Suc n + m'), tr')"
      and cnt: "ping_calls tr' = Suc (ping_calls (?tr1 @ [Sleep_ms 1000]) + m')"
      using Cons.IH [OF len hit rest] by blast
    have "ping_attempts probe host (i # is) (n, tr) = (True, Suc (n + m), tr')"
      using no run Suc by (simp add: Let_def)
    moreover have "ping_calls tr' = Suc (ping_calls tr + m)"
      using cnt Suc by (simp add: ping_calls_def)
    ultimately show ?thesis by blast
  qed
qed

text \<open>
  C3.  With at most 10 attempts: when the probe first succeeds on attempt \<open>k\<close>
  (\<open>1 \<le> k \<le> 10\<close>), \<open>ping_once\<close> is invoked exactly \<open>k\<close> times and the host is reported
  reachable; when all 10 probes fail, it is invoked exactly 10 times and the host is
  reported unreachable.
\<close>

theorem do_ping_poll:
  "(1 \<le> k \<and> k \<le> 10 \<and> probe (k - 1) \<and> (\<forall>j<k - 1. \<not> probe j) \<longrightarrow>
      (\<exists>tr. do_ping probe host = (True, k, tr) \<and> ping_calls tr = k \<and>
            Show_info ''Wake Confirmed'' ''Success: PC is responding.'' \<in> set tr)) \<and>
   ((\<forall>j<10. \<not> probe j) \<longrightarrow>
      (\<exists>tr. do_ping probe host = (False, 10, tr) \<and> ping_calls tr = 10 \<and>
            Show_warning ''Check Failed''
              ''No response yet. Please wait a bit longer and try again.'' \<in> set tr))"
proof (intro conjI impI)
  let ?tr0 = "[Log_line (''Ping check started: '' @ host), Set_progress 10]"
  assume h: "1 \<le> k \<and> k \<le> 10 \<and> probe (k - 1) \<and> (\<forall>j<k - 1. \<not> probe j)"
  then have "k - 1 < length [0..<10]" and "probe (0 + (k - 1))"
    and "\<And>j. j < k - 1 \<Longrightarrow> \<not> probe (0 + j)"
    by auto
  then obtain tr' where
    run: "ping_attempts probe host [0..<10] (0, ?tr0) = (True, Suc (0 + (k - 1)), tr')"
    and cnt: "ping_calls tr' = Suc (ping_calls ?tr0 + (k - 1))"
    using ping_attempts_first_success [of "k - 1" "[0..<10]" probe 0 host ?tr0] by blast
  have k: "Suc (0 + (k - 1)) = k" using h by simp
  show "\<exists>tr. do_ping probe host = (True, k, tr) \<and> ping_calls tr = k \<and>
          Show_info ''Wake Confirmed'' ''Success: PC is responding.'' \<in> set tr"
    using run cnt k by (simp add: do_ping_def ping_calls_def)
next
  let ?tr0 = "[Log_line (''Ping check started: '' @ host), Set_progress 10]"
  assume "\<forall>j<10. \<not> probe j"
  then have "\<And>j. j < length [0..<10] \<Longrightarrow> \<not> probe (0 + j)" by simp
  then obtain tr' where
    run: "ping_attempts probe host [0..<10] (0, ?tr0) = (False, 0 + length [0..<10], tr')"
    and cnt: "ping_calls tr' = ping_calls ?tr0 + length [0..<10]"
    using ping_attempts_all_fail [of "[0..<10]" probe 0 host ?tr0] by blast
  show "\<exists>tr. do_ping probe host = (False, 10, tr) \<and> ping_calls tr = 10 \<and>
          Show_warning ''Check Failed''
            ''No response yet. Please wait a bit longer and try again.'' \<in> set tr"
    using run cnt by (simp add: do_ping_def ping_calls_def)
qed

theorem do_ping_poll_witness:
  "(\<exists>tr. do_ping (\<lambda>n. n = 2) ''192.168.0.100'' = (True, 3, tr) \<and> ping_calls tr = 3 \<and>
         Show_info ''Wake Confirmed'' ''Success: PC is responding.'' \<in> set tr) \<and>
   (\<exists>tr. do_ping (\<lambda>n. False) ''192.168.0.100'' = (False, 10, tr) \<and> ping_calls tr = 10 \<and>
         Show_warning ''Check Failed''
           ''No response yet. Please wait a bit longer and try again.'' \<in> set tr)"
proof -
  have a: "1 \<le> (3::nat) \<and> (3::nat) \<le> 10 \<and> (3::nat) - 1 = 2 \<and> (\<forall>j<(3::nat) - 1. \<not> j = 2)"
    by simp
  show ?thesis
    using a do_ping_poll [of 3 "\<lambda>n. n = 2" "''192.168.0.100''"]
      do_ping_poll [of 0 "\<lambda>n. False" "''192.168.0.100''"]
    by simp
qed

section \<open>The loop over the ports in closed form\<close>

lemma send_attempts_run:
  "send_attempts net host pkt k port is (c, tr) =
     (c + length (filter (\<lambda>i. sock_sendto net k i port = Sent (length pkt)) is),
      tr @ concat (map (\<lambda>i. [Sendto_call host port pkt, Sleep_ms 100]) is))"
  by (induction "is" arbitrary: c tr) (auto split: send_outcome.splits)

lemma send_attempts_three:
  "send_attempts net host pkt k port [0..<3] (0, tr) =
     (sent_ok net pkt k port,
      tr @ [Sendto_call host port pkt, Sleep_ms 100, Sendto_call host port pkt, Sleep_ms 100,
            Sendto_call host port pkt, Sleep_ms 100])"
proof -
  have "[0..<3] = [0, 1, 2::nat]" by (simp add: upt_rec)
  then show ?thesis by (simp add: send_attempts_run sent_ok_def)
qed

lemma send_port_run:
  "send_port net host pkt k port st =
     st\<lparr>success_count := success_count st + (if port_succeeded net pkt (k, port) then 1 else 0),
        results := results st @ [port_result net pkt (k, port)],
        trace := trace st @ port_events net host pkt (k, port)\<rparr>"
  by (cases "socket_setup net k")
    (simp_all add: send_port_def send_attempts_three port_succeeded_def port_result_def
      port_events_def del: upt_Suc)

lemma send_ports_run:
  "send_ports net host pkt k ports st =
     st\<lparr>success_count :=
          success_count st +
          length (filter (port_succeeded net pkt) (zip [k..<k + length ports] ports)),
        results := results st @ map (port_result net pkt) (zip [k..<k + length ports] ports),
        trace :=
          trace st @ concat (map (port_events net host pkt) (zip [k..<k + length ports] ports))\<rparr>"
proof (induction ports arbitrary: k st)
  case Nil
  then show ?case by simp
next
  case (Cons port ports)
  have "[k..<k + length (port # ports)] = k # [Suc k..<k + length (port # ports)]"
    by (rule upt_conv_Cons) simp
  then have upt: "[k..<k + length (port # ports)] = k # [Suc k..<Suc k + length ports]"
    by simp
  show ?case
    unfolding send_ports.simps Cons.IH upt
    by (simp add: send_port_run)
qed

lemma parse_ports_blank: "parse_ports [] = Inr [7, 9]"
  by (simp add: parse_ports_def str_strip_def strip_chars_def DEFAULT_PORTS_def)

lemma magic_packet_example:
  "magic_packet ''AA:BB:CC:DD:EE:FF'' =
     Inr (replicate 6 0xFF @ concat (replicate 16 [0xAA, 0xBB, 0xCC, 0xDD, 0xEE, 0xFF]))"
  by (simp add: magic_packet_def clean_mac_def str_replace_def str_upper_def upper_char_def
      hex_val_def ascii_whitespace_def)

lemma sender_run:
  assumes "parse_ports port_input = Inr ports" and "magic_packet mac = Inr pkt"
  shows "send_magic_packet_advanced net mac host port_input =
    (Inr (0 < length (filter (port_succeeded net pkt) (zip [0..<length ports] ports)),
          map (port_result net pkt) (zip [0..<length ports] ports)),
     concat (map (port_events net host pkt) (zip [0..<length ports] ports)))"
  using assms by (simp add: send_magic_packet_advanced_def send_ports_run Let_def)

lemma filter_zip_upt:
  "(0 < length (filter P (zip [0..<length xs] xs))) = (\<exists>k<length xs. P (k, xs ! k))"
proof -
  have "(0 < length (filter P (zip [0..<length xs] xs))) =
        (\<exists>x\<in>set (zip [0..<length xs] xs). P x)"
    by (simp add: filter_empty_conv)
  also have "\<dots> = (\<exists>k<length xs. P (k, xs ! k))"
  proof
    assume "\<exists>x\<in>set (zip [0..<length xs] xs). P x"
    then obtain i where "i < length xs" and "P ([0..<length xs] ! i, xs ! i)"
      by (auto simp: set_zip)
    then show "\<exists>k<length xs. P (k, xs ! k)" by auto
  next
    assume "\<exists>k<length xs. P (k, xs ! k)"
    then obtain k where k: "k < length xs" and p: "P (k, xs ! k)" by blast
    have "(k, xs ! k) \<in> set (zip [0..<length xs] xs)"
      unfolding set_zip using k by force
    then show "\<exists>x\<in>set (zip [0..<length xs] xs). P x" using p by blast
  qed
  finally show ?thesis .
qed

section \<open>Aggregate success, absorbed errors and the result lines\<close>

text \<open>
  C2.  Whenever the sender gets past validation, the flag it returns is true if and only if
  some port of the list was set up and had at least one of its three sends report the
  whole packet written; when no port has such a send the flag is false.
\<close>

theorem aggregate_success_iff:
  assumes "parse_ports port_input = Inr ports" and "magic_packet mac = Inr pkt"
  shows "\<exists>res tr. send_magic_packet_advanced net mac host port_input =
           (Inr ((\<exists>k<length ports. socket_setup net k = Ready \<and> 0 < sent_ok net pkt k (ports ! k)),
                 res), tr)"
  using sender_run [OF assms, of net host, unfolded filter_zip_upt]
  by (simp add: port_succeeded_def)

lemma length_concat_replicate: "length (concat (replicate n xs)) = n * length xs"
  by (induction n) simp_all

lemma sent_ok_net0: "sent_ok net0 (replicate 6 0xFF @ concat (replicate 16 [0xAA, 0xBB, 0xCC, 0xDD, 0xEE, 0xFF])) (Suc 0) 9 = 2"
proof -
  have "[0..<3] = [0, 1, 2::nat]" by (simp add: upt_rec)
  then show ?thesis by (simp add: sent_ok_def sock_sendto_def net0_def length_concat_replicate)
qed

theorem aggregate_success_iff_witness:
  "\<exists>res tr. send_magic_packet_advanced net0 ''AA:BB:CC:DD:EE:FF'' ''192.168.0.1'' [] =
      (Inr (True, res), tr)"
proof -
  have "\<exists>k<length [7, 9::int]. socket_setup net0 k = Ready \<and>
          0 < sent_ok net0 (replicate 6 0xFF @ concat (replicate 16 [0xAA, 0xBB, 0xCC, 0xDD, 0xEE, 0xFF])) k ([7, 9] ! k)"
    by (rule exI [of _ 1]) (simp add: sent_ok_net0, simp add: net0_def)
  then show ?thesis
    using aggregate_success_iff [OF parse_ports_blank magic_packet_example, of net0 "''192.168.0.1''"]
    by simp
qed

lemma str_int_7_9: "str_int 7 = ''7''" "str_int 9 = ''9''" "str_int 2 = ''2''"
  by (simp_all add: str_int_def str_nat.simps digit_char_def)

text \<open>
  C8.  Whatever the individual sends do (raise or not), a validated run returns a value and
  raises nothing; the events of each port depend on the socket's setup only, so a port whose
  socket is ready always gets its three \<open>sendto\<close> calls and every port of the list is
  processed; and the line of each port counts exactly the sends that succeeded.
\<close>

theorem send_errors_absorbed:
  assumes "parse_ports port_input = Inr ports" and "magic_packet mac = Inr pkt"
  shows "\<exists>flag. send_magic_packet_advanced net mac host port_input =
           (Inr (flag, map (port_result net pkt) (zip [0..<length ports] ports)),
            concat (map (port_events net host pkt) (zip [0..<length ports] ports)))"
  using sender_run [OF assms, of net host] by simp

lemma sent_ok_net1:
  "sent_ok net1 (replicate 6 0xFF @ concat (replicate 16 [0xAA, 0xBB, 0xCC, 0xDD, 0xEE, 0xFF])) 0 7 = 0"
  "sent_ok net1 (replicate 6 0xFF @ concat (replicate 16 [0xAA, 0xBB, 0xCC, 0xDD, 0xEE, 0xFF])) (Suc 0) 9 = 2"
proof -
  have "[0..<3] = [0, 1, 2::nat]" by (simp add: upt_rec)
  then show
    "sent_ok net1 (replicate 6 0xFF @ concat (replicate 16 [0xAA, 0xBB, 0xCC, 0xDD, 0xEE, 0xFF])) 0 7 = 0"
    "sent_ok net1 (replicate 6 0xFF @ concat (replicate 16 [0xAA, 0xBB, 0xCC, 0xDD, 0xEE, 0xFF])) (Suc 0) 9 = 2"
    by (simp_all add: sent_ok_def sock_sendto_def net1_def length_concat_replicate)
qed

lemma setup_net1: "socket_setup net1 k = Ready"
  by (simp add: net1_def)

theorem send_errors_absorbed_witness:
  "\<exists>flag. send_magic_packet_advanced net1 ''AA:BB:CC:DD:EE:FF'' ''192.168.0.1'' [] =
     (Inr (flag, [''Port 7: transmission failed'', ''Port 9: 2/3 transmission success'']),
      [Socket_open,
       Sendto_call ''192.168.0.1'' 7 (replicate 6 0xFF @ concat (replicate 16 [0xAA, 0xBB, 0xCC, 0xDD, 0xEE, 0xFF])), Sleep_ms 100,
       Sendto_call ''192.168.0.1'' 7 (replicate 6 0xFF @ concat (replicate 16 [0xAA, 0xBB, 0xCC, 0xDD, 0xEE, 0xFF])), Sleep_ms 100,
       Sendto_call ''192.168.0.1'' 7 (replicate 6 0xFF @ concat (replicate 16 [0xAA, 0xBB, 0xCC, 0xDD, 0xEE, 0xFF])), Sleep_ms 100,
       Socket_close, Sleep_ms 300,
       Socket_open,
       Sendto_call ''192.168.0.1'' 9 (replicate 6 0xFF @ concat (replicate 16 [0xAA, 0xBB, 0xCC, 0xDD, 0xEE, 0xFF])), Sleep_ms 100,
       Sendto_call ''192.168.0.1'' 9 (replicate 6 0xFF @ concat (replicate 16 [0xAA, 0xBB, 0xCC, 0xDD, 0xEE, 0xFF])), Sleep_ms 100,
       Sendto_call ''192.168.0.1'' 9 (replicate 6 0xFF @ concat (replicate 16 [0xAA, 0xBB, 0xCC, 0xDD, 0xEE, 0xFF])), Sleep_ms 100,
       Socket_close, Sleep_ms 300])"
proof -
  have "[0..<length [7, 9::int]] = [0, 1]" by (simp add: upt_rec)
  then show ?thesis
    using send_errors_absorbed [OF parse_ports_blank magic_packet_example, of net1 "''192.168.0.1''"]
    by (simp add: port_result_def port_events_def sent_ok_net1 str_int_7_9 setup_net1)
qed

text \<open>
  C10.  A run that gets past validation returns exactly one diagnostic line per port, in the
  order of the ports, each naming its port; also for a port whose sends all failed or whose
  socket could not be set up.
\<close>

theorem one_result_per_port:
  assumes "parse_ports port_input = Inr ports" and "magic_packet mac = Inr pkt"
  shows "\<exists>flag res tr. send_magic_packet_advanced net mac host port_input = (Inr (flag, res), tr) \<and>
           length res = length ports \<and>
           (\<forall>k<length ports. prefix (''Port '' @ str_int (ports ! k) @ '': '') (res ! k))"
proof -
  let ?res = "map (port_result net pkt) (zip [0..<length ports] ports)"
  have "length ?res = length ports" by simp
  moreover have "prefix (''Port '' @ str_int (ports ! k) @ '': '') (?res ! k)"
    if "k < length ports" for k
  proof -
    have "?res ! k = port_result net pkt (k, ports ! k)" using that by simp
    then show ?thesis by (simp add: port_result_def)
  qed
  ultimately show ?thesis using sender_run [OF assms, of net host] by blast
qed

theorem one_result_per_port_witness:
  "\<exists>flag res tr. send_magic_packet_advanced net0 ''AA:BB:CC:DD:EE:FF'' ''192.168.0.1'' [] =
       (Inr (flag, res), tr) \<and>
     length res = 2 \<and> prefix ''Port 7: '' (res ! 0) \<and> prefix ''Port 9: '' (res ! 1)"
proof -
  obtain flag res tr where
    run: "send_magic_packet_advanced net0 ''AA:BB:CC:DD:EE:FF'' ''192.168.0.1'' [] = (Inr (flag, res), tr)"
    and len: "length res = length [7, 9::int]"
    and pre: "\<forall>k<length [7, 9::int]. prefix (''Port '' @ str_int ([7, 9] ! k) @ '': '') (res ! k)"
    using one_result_per_port [OF parse_ports_blank magic_packet_example, of net0 "''192.168.0.1''"]
    by blast
  have "prefix ''Port 7: '' (res ! 0)" using pre [rule_format, of 0] by (simp add: str_int_7_9)
  moreover have "prefix ''Port 9: '' (res ! 1)" using pre [rule_format, of 1] by (simp add: str_int_7_9)
  ultimately show ?thesis using run len by simp
qed

section \<open>Facts about the string functions\<close>

lemma replace_from_single_delete:
  "replace_from [c] [] 0 s = filter (\<lambda>x. x \<noteq> c) s"
  by (induction s) auto


lemma str_replace_delete: "str_replace [c] [] s = filter (\<lambda>x. x \<noteq> c) s"
  by (simp add: str_replace_def replace_from_single_delete)


lemma strip_chars_clean:
  "\<forall>x\<in>set r. x \<in> set chars \<Longrightarrow>
   \<forall>x\<in>set l. x \<in> set chars \<Longrightarrow> s = [] \<or> (hd s \<notin> set chars \<and> last s \<notin> set chars) \<Longrightarrow>
   strip_chars chars (l @ s @ r) = s"
proof -
  assume l: "\<forall>x\<in>set l. x \<in> set chars" and r: "\<forall>x\<in>set r. x \<in> set chars"
    and s: "s = [] \<or> (hd s \<notin> set chars \<and> last s \<notin> set chars)"
  let ?P = "\<lambda>c. c \<in> set chars"
  show ?thesis
  proof (cases "s = []")
    case True
    have dw: "dropWhile ?P (l @ r) = []" unfolding dropWhile_eq_Nil_conv using l r by auto
    have "rev (dropWhile ?P (rev (dropWhile ?P (l @ [] @ r)))) = []"
      unfolding append_Nil dw by simp
    then show ?thesis unfolding strip_chars_def True .
  next
    case False
    then have hd: "\<not> ?P (hd s)" and la: "\<not> ?P (last s)" using s by auto
    have "dropWhile ?P (l @ s @ r) = dropWhile ?P (s @ r)"
      by (rule dropWhile_append2) (use l in auto)
    also have "\<dots> = s @ r" using False hd by (cases s) auto
    finally have a: "dropWhile ?P (l @ s @ r) = s @ r" .
    have "dropWhile ?P (rev r @ rev s) = dropWhile ?P (rev s)"
      by (rule dropWhile_append2) (use r in auto)
    then have "dropWhile ?P (rev (s @ r)) = dropWhile ?P (rev s)" by simp
    also have "\<dots> = rev s" using False la by (cases "rev s") (auto simp: last_rev hd_rev)
    finally show ?thesis using a by (simp add: strip_chars_def)
  qed
qed

section \<open>Host normalization\<close>

lemma replace_from_no_occurrence:
  "\<not> sublist old s \<Longrightarrow> replace_from old new 0 s = s"
proof (induction s)
  case Nil
  then show ?case by simp
next
  case (Cons c cs)
  then have "\<not> prefix old (c # cs)" and "\<not> sublist old cs"
    by (simp_all add: sublist_Cons_right)
  then show ?case using Cons.IH by simp
qed

lemma replace_scheme_rest:
  "\<not> sublist ''http://'' rest \<Longrightarrow> str_replace ''http://'' [] rest = rest"
  "\<not> sublist ''https://'' rest \<Longrightarrow> str_replace ''https://'' [] rest = rest"
  by (simp_all add: str_replace_def replace_from_no_occurrence)

lemma replace_http_prefix:
  "\<not> sublist ''http://'' rest \<Longrightarrow> str_replace ''http://'' [] (''http://'' @ rest) = rest"
  by (simp add: str_replace_def replace_from_no_occurrence)

lemma replace_https_prefix:
  "\<not> sublist ''http://'' rest \<Longrightarrow>
     str_replace ''http://'' [] (''https://'' @ rest) = ''https://'' @ rest"
  "\<not> sublist ''https://'' rest \<Longrightarrow> str_replace ''https://'' [] (''https://'' @ rest) = rest"
  by (simp_all add: str_replace_def replace_from_no_occurrence)

lemma strip_slashes:
  assumes "h = [] \<or> (hd h \<noteq> CHR ''/'' \<and> last h \<noteq> CHR ''/'')"
  shows "strip_chars ''/'' (h @ replicate n (CHR ''/'')) = h"
proof -
  have "strip_chars ''/'' ([] @ h @ replicate n (CHR ''/'')) = h"
    by (rule strip_chars_clean) (use assms in simp_all)
  then show ?thesis by simp
qed

text \<open>
  C9, as amended.  Take a router address made of an optional \<open>http://\<close> or \<open>https://\<close>
  prefix, a part \<open>h\<close> that neither begins nor ends with a slash, and any number of trailing
  slashes, where neither scheme text occurs in \<open>h\<close> followed by the trailing slashes.  Host
  normalization removes exactly the prefix and the trailing slashes: it returns \<open>h\<close>, with
  every other character (colons and inner slashes too) preserved.
\<close>

theorem clean_host_scheme_and_slashes:
  assumes "scheme \<in> {[], ''http://'', ''https://''}"
    and "h = [] \<or> (hd h \<noteq> CHR ''/'' \<and> last h \<noteq> CHR ''/'')"
    and "\<not> sublist ''http://'' (h @ replicate n (CHR ''/''))"
    and "\<not> sublist ''https://'' (h @ replicate n (CHR ''/''))"
  shows "clean_host (scheme @ h @ replicate n (CHR ''/'')) = h"
proof -
  let ?rest = "h @ replicate n (CHR ''/'')"
  have "str_replace ''https://'' [] (str_replace ''http://'' [] (scheme @ ?rest)) = ?rest"
    using assms(1) replace_scheme_rest [of ?rest] replace_http_prefix [OF assms(3)]
      replace_https_prefix [of ?rest] assms(3,4)
    by auto
  then show ?thesis unfolding clean_host_def by (simp add: strip_slashes [OF assms(2)])
qed

theorem clean_host_scheme_and_slashes_witness:
  "clean_host ''http://192.168.0.1/'' = ''192.168.0.1'' \<and>
   clean_host ''https://router.local//'' = ''router.local'' \<and>
   clean_host ''http://192.168.0.1:8080/'' = ''192.168.0.1:8080'' \<and>
   clean_host ''http://host/path/'' = ''host/path'' \<and>
   clean_host ''192.168.0.1'' = ''192.168.0.1''"
proof -
  have a: "\<not> sublist ''http://'' (''192.168.0.1'' @ replicate 1 (CHR ''/''))"
    "\<not> sublist ''https://'' (''192.168.0.1'' @ replicate 1 (CHR ''/''))"
    and b: "\<not> sublist ''http://'' (''router.local'' @ replicate 2 (CHR ''/''))"
    "\<not> sublist ''https://'' (''router.local'' @ replicate 2 (CHR ''/''))"
    and c: "\<not> sublist ''http://'' (''192.168.0.1:8080'' @ replicate 1 (CHR ''/''))"
    "\<not> sublist ''https://'' (''192.168.0.1:8080'' @ replicate 1 (CHR ''/''))"
    and d: "\<not> sublist ''http://'' (''host/path'' @ replicate 1 (CHR ''/''))"
    "\<not> sublist ''https://'' (''host/path'' @ replicate 1 (CHR ''/''))"
    and e: "\<not> sublist ''http://'' (''192.168.0.1'' @ replicate 0 (CHR ''/''))"
    "\<not> sublist ''https://'' (''192.168.0.1'' @ replicate 0 (CHR ''/''))"
    by (simp_all add: sublist_Cons_right numeral_2_eq_2)
  show ?thesis
    using clean_host_scheme_and_slashes [OF _ _ a, of "''http://''"]
      clean_host_scheme_and_slashes [OF _ _ b, of "''https://''"]
      clean_host_scheme_and_slashes [OF _ _ c, of "''http://''"]
      clean_host_scheme_and_slashes [OF _ _ d, of "''http://''"]
      clean_host_scheme_and_slashes [OF _ _ e, of "[]"]
    by (simp add: numeral_2_eq_2)
qed

text \<open>
  C9 as stated fails: the scheme text is removed wherever it occurs, not only at the start,
  and slashes are stripped at the start as well as at the end.
\<close>

theorem clean_host_inner_occurrence:
  "clean_host ''192.168.0.1/http://x'' = ''192.168.0.1/x'' \<and>
   clean_host ''/192.168.0.1'' = ''192.168.0.1''"
  by (simp add: clean_host_def str_replace_def strip_chars_def)

section \<open>Decimal numerals and the port specification\<close>

lemma digit_char_props:
  assumes "d < 10"
  shows "is_digit (digit_char d)" and "digit_val (digit_char d) = int d"
    and "digit_char d \<notin> set whitespace" and "digit_char d \<notin> set ascii_whitespace"
    and "digit_char d \<noteq> CHR ''-''" and "digit_char d \<noteq> CHR ''+''"
proof -
  have all: "\<forall>d\<in>set [0..<10]. is_digit (digit_char d) \<and> digit_val (digit_char d) = int d \<and>
      digit_char d \<notin> set whitespace \<and> digit_char d \<notin> set ascii_whitespace \<and>
      digit_char d \<noteq> CHR ''-'' \<and> digit_char d \<noteq> CHR ''+''"
    by (simp add: upt_rec digit_char_def is_digit_def digit_val_def whitespace_def
        ascii_whitespace_def)
  have "d \<in> set [0..<10]" using assms by simp
  with all show "is_digit (digit_char d)" and "digit_val (digit_char d) = int d"
    and "digit_char d \<notin> set whitespace" and "digit_char d \<notin> set ascii_whitespace"
    and "digit_char d \<noteq> CHR ''-''" and "digit_char d \<noteq> CHR ''+''"
    by blast+
qed

lemma int_digits_append:
  "list_all is_digit ds \<Longrightarrow> is_digit c \<Longrightarrow>
   int_digits acc (ds @ [c]) = map_option (\<lambda>v. 10 * v + digit_val c) (int_digits acc ds)"
  by (induction ds arbitrary: acc) simp_all

lemma str_nat_shape:
  "str_nat n \<noteq> [] \<and> list_all is_digit (str_nat n) \<and>
   int_unsigned (str_nat n) = Some (int n) \<and>
   hd (str_nat n) \<in> digit_char ` {..<10} \<and> last (str_nat n) \<in> digit_char ` {..<10}"
proof (induction n rule: str_nat.induct)
  case (1 n)
  show ?case
  proof (cases "n < 10")
    case True
    then show ?thesis
      by (simp add: str_nat.simps [of n] int_unsigned_def digit_char_props)
  next
    case False
    let ?s = "str_nat (n div 10)" and ?c = "digit_char (n mod 10)"
    have c: "is_digit ?c" "digit_val ?c = int (n mod 10)" by (simp_all add: digit_char_props)
    from 1 False have ih: "?s \<noteq> []" "list_all is_digit ?s"
      "int_unsigned ?s = Some (int (n div 10))" "hd ?s \<in> digit_char ` {..<10}"
      by simp_all
    obtain d ds where s: "?s = d # ds" using ih(1) by (cases ?s) auto
    have "int_unsigned (?s @ [?c]) = Some (10 * int (n div 10) + int (n mod 10))"
      using ih(2,3) c unfolding s by (simp add: int_unsigned_def int_digits_append)
    moreover have "10 * int (n div 10) + int (n mod 10) = int n" by presburger
    ultimately show ?thesis
      using False ih c by (simp add: str_nat.simps [of n])
  qed
qed

lemma py_int_str_nat: "py_int (str_nat n) = Some (int n)"
proof -
  have shape: "str_nat n \<noteq> []" "int_unsigned (str_nat n) = Some (int n)"
    "hd (str_nat n) \<in> digit_char ` {..<10}" "last (str_nat n) \<in> digit_char ` {..<10}"
    using str_nat_shape [of n] by simp_all
  have "strip_chars ascii_whitespace ([] @ str_nat n @ []) = str_nat n"
    by (rule strip_chars_clean) (use shape in \<open>auto simp: digit_char_props\<close>)
  then have strip: "strip_chars ascii_whitespace (str_nat n) = str_nat n" by simp
  obtain d ds where s: "str_nat n = d # ds" using shape(1) by (cases "str_nat n") auto
  have "d \<noteq> CHR ''-''" "d \<noteq> CHR ''+''"
    using shape(3) unfolding s by (auto simp: digit_char_props)
  then show ?thesis using shape(2) unfolding py_int_def strip by (simp add: s)
qed

lemma str_strip_str_nat: "str_strip (str_nat n) = str_nat n"
proof -
  have shape: "str_nat n \<noteq> []"
    "hd (str_nat n) \<in> digit_char ` {..<10}" "last (str_nat n) \<in> digit_char ` {..<10}"
    using str_nat_shape [of n] by simp_all
  have "strip_chars whitespace ([] @ str_nat n @ []) = str_nat n"
    by (rule strip_chars_clean) (use shape in \<open>auto simp: digit_char_props\<close>)
  then show ?thesis by (simp add: str_strip_def)
qed

lemma parse_ports_numeral:
  "str_strip port_input = str_nat n \<Longrightarrow> parse_ports port_input = Inr [int n]"
  using str_nat_shape [of n] by (simp add: parse_ports_def py_int_str_nat)

lemma str_nat_examples: "str_nat 8080 = ''8080''" "str_nat 70000 = ''70000''"
  by (simp_all add: str_nat.simps digit_char_def)

lemma str_strip_examples: "str_strip ''  '' = []" "str_strip ''8080'' = ''8080''"
  "str_strip ''70000'' = ''70000''" "str_strip ''abc'' = ''abc''"
  by (simp_all add: str_strip_def strip_chars_def whitespace_def)

text \<open>
  C6.  With a blank port specification the sender works on exactly the ports 7 and 9, in
  this order; with a decimal numeral (surrounding whitespace allowed) it works on exactly the
  port the numeral denotes: the result lines and the events are those of these ports only.
\<close>

theorem default_and_single_port:
  assumes "magic_packet mac = Inr pkt"
  shows "(str_strip port_input = [] \<longrightarrow>
           parse_ports port_input = Inr [7, 9] \<and>
           (\<exists>flag. send_magic_packet_advanced net mac host port_input =
              (Inr (flag, [port_result net pkt (0, 7), port_result net pkt (1, 9)]),
               port_events net host pkt (0, 7) @ port_events net host pkt (1, 9)))) \<and>
         (str_strip port_input = str_nat n \<longrightarrow>
           parse_ports port_input = Inr [int n] \<and>
           (\<exists>flag. send_magic_packet_advanced net mac host port_input =
              (Inr (flag, [port_result net pkt (0, int n)]),
               port_events net host pkt (0, int n))))"
proof (intro conjI impI)
  assume "str_strip port_input = []"
  then show p: "parse_ports port_input = Inr [7, 9]"
    by (simp add: parse_ports_def DEFAULT_PORTS_def)
  have "[0..<length [7, 9::int]] = [0, 1]" by (simp add: upt_rec)
  then show "\<exists>flag. send_magic_packet_advanced net mac host port_input =
      (Inr (flag, [port_result net pkt (0, 7), port_result net pkt (1, 9)]),
       port_events net host pkt (0, 7) @ port_events net host pkt (1, 9))"
    using sender_run [OF p assms, of net host] by simp
next
  assume "str_strip port_input = str_nat n"
  then show p: "parse_ports port_input = Inr [int n]" by (rule parse_ports_numeral)
  show "\<exists>flag. send_magic_packet_advanced net mac host port_input =
      (Inr (flag, [port_result net pkt (0, int n)]), port_events net host pkt (0, int n))"
    using sender_run [OF p assms, of net host] by simp
qed

theorem default_and_single_port_witness:
  "parse_ports ''  '' = Inr [7, 9] \<and> parse_ports ''8080'' = Inr [8080] \<and>
   (\<exists>flag. send_magic_packet_advanced net1 ''AA:BB:CC:DD:EE:FF'' ''192.168.0.1'' ''8080'' =
      (Inr (flag, [port_result net1
                     (replicate 6 0xFF @ concat (replicate 16 [0xAA, 0xBB, 0xCC, 0xDD, 0xEE, 0xFF]))
                     (0, 8080)]),
       port_events net1 ''192.168.0.1''
         (replicate 6 0xFF @ concat (replicate 16 [0xAA, 0xBB, 0xCC, 0xDD, 0xEE, 0xFF]))
         (0, 8080)))"
  using default_and_single_port [OF magic_packet_example, of "''  ''" net1 "''192.168.0.1''" 0]
    default_and_single_port [OF magic_packet_example, of "''8080''" net1 "''192.168.0.1''" 8080]
  by (simp add: str_strip_examples str_nat_examples)







section \<open>Hexadecimal digits and octets\<close>

lemma hex_digit_table:
  "\<forall>k\<in>set [0..<16].
     is_hex_upper (''0123456789ABCDEF'' ! k) \<and> hex_val (''0123456789ABCDEF'' ! k) = Some k"
  by (simp add: upt_rec is_hex_upper_def hex_val_def)

lemma hex_upper_table:
  "\<forall>c\<in>set ''0123456789ABCDEF''.
     c \<noteq> CHR '':'' \<and> c \<noteq> CHR ''-'' \<and> c \<notin> set ascii_whitespace \<and> c \<notin> set whitespace \<and>
     upper_char c = c"
  by (simp add: ascii_whitespace_def whitespace_def upper_char_def)

lemma is_hex_upper_props:
  assumes "is_hex_upper c"
  shows "c \<noteq> CHR '':''" and "c \<noteq> CHR ''-''" and "c \<notin> set ascii_whitespace"
    and "c \<notin> set whitespace" and "upper_char c = c"
  using assms hex_upper_table unfolding is_hex_upper_def by blast+



lemma upper_char_sep:
  "upper_char c = CHR '':'' \<longleftrightarrow> c = CHR '':''" "upper_char c = CHR ''-'' \<longleftrightarrow> c = CHR ''-''"
  by (auto simp: upper_char_def split: if_splits)

lemma hex_pair_shape:
  "\<exists>h l. hex_pair b = [h, l] \<and> is_hex_upper h \<and> is_hex_upper l \<and>
         hex_val h = Some (unat b div 16) \<and> hex_val l = Some (unat b mod 16)"
proof -
  have "unat b < 256" using unsigned_less [of b] by simp
  then have "unat b div 16 \<in> set [0..<16]" and "unat b mod 16 \<in> set [0..<16]" by auto
  then show ?thesis using hex_digit_table unfolding hex_pair_def by blast
qed

lemma bytes_fromhex_pair:
  "bytes_fromhex (hex_pair b @ rest) = map_option ((#) b) (bytes_fromhex rest)"
proof -
  obtain h l where p: "hex_pair b = [h, l]" "is_hex_upper h"
    "hex_val h = Some (unat b div 16)" "hex_val l = Some (unat b mod 16)"
    using hex_pair_shape [of b] by blast
  have "16 * (unat b div 16) + unat b mod 16 = unat b" by presburger
  then have "(word_of_nat (16 * (unat b div 16) + unat b mod 16) :: byte) = b" by simp
  then show ?thesis using p by (simp add: is_hex_upper_props)
qed

lemma bytes_fromhex_octets: "bytes_fromhex (concat (map hex_pair octets)) = Some octets"
  by (induction octets) (simp_all add: bytes_fromhex_pair)

lemma bytes_fromhex_length:
  "list_all is_hex_upper m \<Longrightarrow> bytes_fromhex m = Some bs \<Longrightarrow> length m = 2 * length bs"
proof (induction m arbitrary: bs rule: bytes_fromhex.induct)
  case 1
  then show ?case by simp
next
  case (2 a)
  then show ?case by (simp add: is_hex_upper_props)
next
  case (3 a b s)
  then show ?case
    by (auto simp: is_hex_upper_props split: option.splits)
qed

lemma concat_replicate_nth:
  "xs \<noteq> [] \<Longrightarrow> i < n * length xs \<Longrightarrow> concat (replicate n xs) ! i = xs ! (i mod length xs)"
proof (induction n arbitrary: i)
  case 0
  then show ?case by simp
next
  case (Suc n)
  show ?case
  proof (cases "i < length xs")
    case True
    then show ?thesis by (simp add: nth_append)
  next
    case False
    then have "i - length xs < n * length xs" using Suc.prems by simp
    then have "concat (replicate n xs) ! (i - length xs) = xs ! ((i - length xs) mod length xs)"
      using Suc.IH Suc.prems(1) by blast
    moreover have "(i - length xs) mod length xs = i mod length xs"
      using False by (simp add: le_mod_geq)
    ultimately show ?thesis using False by (simp add: nth_append)
  qed
qed

lemma list_of_six:
  "length xs = 6 \<Longrightarrow> \<exists>a b c d e f. xs = [a, b, c, d, e, f]"
  by (auto simp: eval_nat_numeral length_Suc_conv)

lemma filter_join:
  "filter P sep = [] \<Longrightarrow> \<forall>p\<in>set ps. filter P p = p \<Longrightarrow> filter P (join sep ps) = concat ps"
  by (induction sep ps rule: join.induct) simp_all


section \<open>The layout of the magic packet\<close>

lemma hex_pair_simps:
  "length (hex_pair b) = 2" "list_all is_hex_upper (hex_pair b)"
  "filter (\<lambda>x. x \<noteq> CHR ''-'' \<and> x \<noteq> CHR '':'') (hex_pair b) = hex_pair b"
  "map (\<lambda>x. if x = CHR ''-'' then CHR '':'' else x) (hex_pair b) = hex_pair b"
  "map upper_char (hex_pair b) = hex_pair b"
  "hex_pair b \<noteq> []"
  "is_hex_upper (hd (hex_pair b))" "is_hex_upper (last (hex_pair b))"
proof -
  obtain h l where p: "hex_pair b = [h, l]" "is_hex_upper h" "is_hex_upper l"
    using hex_pair_shape [of b] by blast
  show "length (hex_pair b) = 2" "list_all is_hex_upper (hex_pair b)"
    "filter (\<lambda>x. x \<noteq> CHR ''-'' \<and> x \<noteq> CHR '':'') (hex_pair b) = hex_pair b"
    "map (\<lambda>x. if x = CHR ''-'' then CHR '':'' else x) (hex_pair b) = hex_pair b"
    "map upper_char (hex_pair b) = hex_pair b"
    "hex_pair b \<noteq> []"
    "is_hex_upper (hd (hex_pair b))" "is_hex_upper (last (hex_pair b))"
    using p by (simp_all add: is_hex_upper_props)
qed

lemma clean_mac_text:
  assumes "length octets = 6" and "sep \<in> {'':'', ''-'', []}"
    and "str_upper mac = mac_text sep octets"
  shows "clean_mac mac = Inr (concat (map hex_pair octets))"
proof -
  let ?P = "\<lambda>x. x \<noteq> CHR ''-'' \<and> x \<noteq> CHR '':''"
  have up: "?P (upper_char x) = ?P x" for x by (simp add: upper_char_sep)
  have "str_upper (str_replace ''-'' [] (str_replace '':'' [] mac)) = map upper_char (filter ?P mac)"
    by (simp add: str_upper_def str_replace_delete conj_commute)
  also have "\<dots> = filter ?P (map upper_char mac)"
    by (simp add: filter_map comp_def up)
  also have "\<dots> = filter ?P (join sep (map hex_pair octets))"
    using assms(3) by (simp add: str_upper_def mac_text_def)
  also have "\<dots> = concat (map hex_pair octets)"
    by (rule filter_join) (use assms(2) in \<open>auto simp: hex_pair_simps\<close>)
  finally have m: "str_upper (str_replace ''-'' [] (str_replace '':'' [] mac)) =
      concat (map hex_pair octets)" .
  obtain a b c d e f where o: "octets = [a, b, c, d, e, f]"
    using list_of_six [OF assms(1)] by blast
  have "length (concat (map hex_pair octets)) = 12"
    and "list_all is_hex_upper (concat (map hex_pair octets))"
    unfolding o by (simp_all add: hex_pair_simps)
  then show ?thesis
    unfolding clean_mac_def m Let_def is_hex_upper_def by simp
qed

text \<open>
  C4.  The packet is a function of the address text alone.  Whenever the sender accepts the
  address, the packet has exactly 102 bytes, bytes 0 to 5 are \<open>0xFF\<close>, and bytes 6 to 101
  repeat one 6-byte address 16 times.  For six octets written in hexadecimal, in either
  letter case, with colons, with dashes or with no separator, that address is the six octets.
\<close>

theorem magic_packet_layout:
  "(magic_packet mac = Inr pkt \<longrightarrow>
      length pkt = 102 \<and> (\<forall>i<6. pkt ! i = 0xFF) \<and>
      (\<exists>addr. length addr = 6 \<and> (\<forall>i<96. pkt ! (6 + i) = addr ! (i mod 6)))) \<and>
   (length octets = 6 \<and> sep \<in> {'':'', ''-'', []} \<and> str_upper mac = mac_text sep octets \<longrightarrow>
      magic_packet mac = Inr (replicate 6 0xFF @ concat (replicate 16 octets)))"
proof (intro conjI impI)
  assume "length octets = 6 \<and> sep \<in> {'':'', ''-'', []} \<and> str_upper mac = mac_text sep octets"
  then have "clean_mac mac = Inr (concat (map hex_pair octets))"
    using clean_mac_text by blast
  then show "magic_packet mac = Inr (replicate 6 0xFF @ concat (replicate 16 octets))"
    by (simp add: magic_packet_def bytes_fromhex_octets)
next
  assume run: "magic_packet mac = Inr pkt"
  then obtain m where m: "clean_mac mac = Inr m"
    by (cases "clean_mac mac") (simp_all add: magic_packet_def)
  then have len: "length m = 12" and hex: "list_all is_hex_upper m"
    unfolding clean_mac_def Let_def is_hex_upper_def by (auto split: if_splits)
  obtain addr where a: "bytes_fromhex m = Some addr"
    and pkt: "pkt = replicate 6 0xFF @ concat (replicate 16 addr)"
    using run m by (cases "bytes_fromhex m") (simp_all add: magic_packet_def)
  have six: "length addr = 6" using bytes_fromhex_length [OF hex a] len by simp
  show "length pkt = 102" by (simp add: pkt length_concat_replicate six)
  show "\<forall>i<6. pkt ! i = 0xFF" by (simp add: pkt nth_append)
  have "pkt ! (6 + i) = addr ! (i mod 6)" if "i < 96" for i
  proof -
    have "addr \<noteq> []" using six by auto
    moreover have "i < 16 * length addr" using that six by simp
    ultimately have "concat (replicate 16 addr) ! i = addr ! (i mod length addr)"
      by (rule concat_replicate_nth)
    then show ?thesis by (simp add: pkt nth_append six)
  qed
  then show "\<exists>addr. length addr = 6 \<and> (\<forall>i<96. pkt ! (6 + i) = addr ! (i mod 6))"
    using six by blast
qed

lemma mac_text_example:
  "mac_text '':'' [0xAA, 0xBB, 0xCC, 0xDD, 0xEE, 0xFF] = ''AA:BB:CC:DD:EE:FF''"
  "mac_text [] [0xAA, 0xBB, 0xCC, 0xDD, 0xEE, 0xFF] = ''AABBCCDDEEFF''"
  "mac_text ''-'' [0xAA, 0xBB, 0xCC, 0xDD, 0xEE, 0xFF] = ''AA-BB-CC-DD-EE-FF''"
  by (simp_all add: mac_text_def hex_pair_def)

theorem magic_packet_layout_witness:
  "magic_packet ''aabbccddeeff'' =
     Inr (replicate 6 0xFF @ concat (replicate 16 [0xAA, 0xBB, 0xCC, 0xDD, 0xEE, 0xFF])) \<and>
   length (replicate 6 (0xFF::byte) @ concat (replicate 16 [0xAA, 0xBB, 0xCC, 0xDD, 0xEE, 0xFF])) = 102"
proof -
  have u: "str_upper ''aabbccddeeff'' = mac_text [] [0xAA, 0xBB, 0xCC, 0xDD, 0xEE, 0xFF]"
    by (simp add: mac_text_example str_upper_def upper_char_def)
  have p: "magic_packet ''aabbccddeeff'' =
     Inr (replicate 6 0xFF @ concat (replicate 16 [0xAA, 0xBB, 0xCC, 0xDD, 0xEE, 0xFF]))"
    using u magic_packet_layout [of "''aabbccddeeff''" "[]" "[0xAA, 0xBB, 0xCC, 0xDD, 0xEE, 0xFF]" "[]"]
    by simp
  show ?thesis
    using p
      magic_packet_layout [of "''aabbccddeeff''"
        "replicate 6 0xFF @ concat (replicate 16 [0xAA, 0xBB, 0xCC, 0xDD, 0xEE, 0xFF])" "[]" "[]"]
    by simp
qed

section \<open>Normalizing an address\<close>






end
